theory Spec2Isabelle
  imports Complex_Main "HOL-Library.AList"
begin

section \<open>Split evaluation of \<open>Week5.ipynb\<close>\<close>

text \<open>
  The notebook defines four functions over NumPy arrays: \<open>splits\<close> (candidate
  thresholds), \<open>split_data\<close> (boolean-mask partitioning), \<open>MAE\<close> (error before
  and after a split) and \<open>get_best_split\<close> (the loop over the thresholds and the
  choice of the best one).

  The partitioning, the error measures and the selection are read in exact arithmetic:
  array elements are taken from an ordered field \<open>'a\<close> (the rationals for every
  evaluation below), and the rounding of \<open>float64\<close> in the means is not part of it. What
  is kept of IEEE arithmetic there is the one special value the code can produce from such
  inputs: \<open>np.mean\<close> of an empty array is \<open>nan\<close> (NumPy warns and returns it), and
  \<open>nan\<close> propagates through arithmetic and fails every comparison.

  The threshold generator is given twice: \<open>splits\<close> in exact arithmetic, which the selector
  uses, and \<open>splits_int64\<close> as NumPy computes it on an \<open>int64\<close> array, the type of the
  notebook's arrays: the sum of two elements wraps around at 64 bits and is converted to
  \<open>float64\<close>, which rounds, before it is halved. The two agree on arrays whose elements
  are below \<open>2^52\<close> in magnitude (lemma \<open>splits_int64_exact\<close>).
\<close>

subsection \<open>Values and exceptions\<close>

text \<open>The exceptions the four functions can raise.
  \<open>IndexError\<close>: NumPy, on indexing an array with a non-empty boolean mask of another
  length.
  \<open>ZeroDivisionError\<close>: Python, on \<open>/\<close> between two \<open>int\<close>s with divisor 0.
  \<open>ValueError\<close>: Python, on \<open>min\<close> of an empty iterable.\<close>

datatype error = IndexError | ZeroDivisionError | ValueError

text \<open>A floating-point result: a number or \<open>nan\<close>.\<close>

datatype 'a val = NaN | Fin 'a

fun val_add :: "'a::linordered_field val \<Rightarrow> 'a val \<Rightarrow> 'a val" where
  "val_add (Fin a) (Fin b) = Fin (a + b)"
| "val_add _ _ = NaN"

fun val_sub :: "'a::linordered_field val \<Rightarrow> 'a val \<Rightarrow> 'a val" where
  "val_sub (Fin a) (Fin b) = Fin (a - b)"
| "val_sub _ _ = NaN"

fun val_mul :: "'a::linordered_field val \<Rightarrow> 'a val \<Rightarrow> 'a val" where
  "val_mul (Fin a) (Fin b) = Fin (a * b)"
| "val_mul _ _ = NaN"

fun val_abs :: "'a::linordered_field val \<Rightarrow> 'a val" where
  "val_abs (Fin a) = Fin \<bar>a\<bar>"
| "val_abs NaN = NaN"

text \<open>Comparisons with \<open>nan\<close> are all false, \<open>nan == nan\<close> included.\<close>

fun val_less :: "'a::linordered_field val \<Rightarrow> 'a val \<Rightarrow> bool" where
  "val_less (Fin a) (Fin b) = (a < b)"
| "val_less _ _ = False"

fun val_eq :: "'a::linordered_field val \<Rightarrow> 'a val \<Rightarrow> bool" where
  "val_eq (Fin a) (Fin b) = (a = b)"
| "val_eq _ _ = False"

subsection \<open>NumPy primitives\<close>

text \<open>\<open>np.mean(a)\<close>: the sum divided by the number of elements. On the empty array this
  is \<open>0.0 / 0\<close>, which NumPy evaluates to \<open>nan\<close> with a warning.\<close>

fun mean_div :: "'a::linordered_field val \<Rightarrow> nat \<Rightarrow> 'a val" where
  "mean_div (Fin s) n = (if n = 0 then NaN else Fin (s / of_nat n))"
| "mean_div NaN n = NaN"

definition np_mean :: "'a::linordered_field val list \<Rightarrow> 'a val" where
  "np_mean a = mean_div (foldl val_add (Fin 0) a) (length a)"

text \<open>\<open>a - c\<close> for an array \<open>a\<close> and a scalar \<open>c\<close>, and \<open>np.absolute(a)\<close>.\<close>

definition np_sub :: "'a::linordered_field val list \<Rightarrow> 'a val \<Rightarrow> 'a val list" where
  "np_sub a c = map (\<lambda>v. val_sub v c) a"

definition np_absolute :: "'a::linordered_field val list \<Rightarrow> 'a val list" where
  "np_absolute a = map val_abs a"

text \<open>\<open>a[m]\<close> for a one-dimensional boolean array \<open>m\<close>: the elements of \<open>a\<close> at the
  positions where \<open>m\<close> is true, in order. NumPy turns a mask whose shape is not the
  array's into the indices of its true entries and then raises \<open>IndexError\<close> ("boolean
  index did not match indexed array") when the mask's length is positive and differs from
  the array's. A mask of length 0 passes that test: it selects nothing, from an array of
  any length.\<close>

definition bool_index :: "'a list \<Rightarrow> bool list \<Rightarrow> error + 'a list" where
  "bool_index a m =
     (if length m \<noteq> length a \<and> 0 < length m then Inl IndexError
      else Inr (map fst (filter snd (zip a m))))"

subsection \<open>\<open>splits\<close>\<close>

text \<open>In exact arithmetic. The loop \<open>for i in range(len(x)-1)\<close> appends one midpoint per
  index.
  \<open>range\<close> of a number below 1 is empty, as is \<open>[0..<length x - 1]\<close> on the naturals
  for a list of length 0 or 1, so no index is ever out of range.\<close>

definition splits :: "'a::linordered_field list \<Rightarrow> 'a list" where
  "splits x =
     (let x_sorted = sort x
      in foldl (\<lambda>split_ponit_list i.
                  split_ponit_list @ [(x_sorted ! i + x_sorted ! (i + 1)) / 2])
               [] [0..<length x - 1])"

subsection \<open>\<open>splits\<close> on an \<open>int64\<close> array\<close>

text \<open>The conversion of an integer to \<open>float64\<close>: the nearest number with a
  53-bit significand, a tie going to the even significand. \<open>bitlen\<close> is the number of
  binary digits. An integer of magnitude below \<open>2^53\<close> is kept as it is.\<close>

function bitlen :: "int \<Rightarrow> nat" where
  "bitlen n = (if n \<le> 0 then 0 else Suc (bitlen (n div 2)))"
  by pat_completeness auto

termination bitlen
  by (relation "measure nat") simp_all

declare bitlen.simps [simp del]

definition float64_of_int :: "int \<Rightarrow> rat" where
  "float64_of_int n =
     (let m = \<bar>n\<bar>;
          e = bitlen m - 53;
          q = m div 2 ^ e;
          r = m mod 2 ^ e;
          q' = (if 2 * r > 2 ^ e \<or> (2 * r = 2 ^ e \<and> odd q) then q + 1 else q)
      in of_int (sgn n * (q' * 2 ^ e)))"

text \<open>\<open>a + b\<close> on two \<open>int64\<close> scalars, given as the integers they denote: NumPy
  warns of an overflow and returns the sum reduced to the 64-bit two's complement range.\<close>

definition int64_add :: "int \<Rightarrow> int \<Rightarrow> int" where
  "int64_add a b = (a + b + 2 ^ 63) mod 2 ^ 64 - 2 ^ 63"

text \<open>\<open>splits\<close> on an \<open>int64\<close> array: \<open>sorted\<close> orders the elements as signed
  integers, \<open>x_sorted[i] + x_sorted[i+1]\<close> is the wrapping sum, and \<open>/ 2\<close> converts it to
  \<open>float64\<close> and halves it, which is exact.\<close>

definition splits_int64 :: "int list \<Rightarrow> rat list" where
  "splits_int64 x =
     (let x_sorted = sort x
      in foldl (\<lambda>split_ponit_list i.
                  split_ponit_list
                    @ [float64_of_int (int64_add (x_sorted ! i) (x_sorted ! (i + 1))) / 2])
               [] [0..<length x - 1])"

subsection \<open>\<open>split_data\<close>\<close>

definition split_data ::
  "'a::linordered_field list \<Rightarrow> 'a list \<Rightarrow> 'a
     \<Rightarrow> error + ('a list \<times> 'a list \<times> 'a list \<times> 'a list)" where
  "split_data x y split_pt =
     (let true_mask = map (\<lambda>v. v > split_pt) x;
          anti_mask = map (\<lambda>v. v < split_pt) x
      in case bool_index x true_mask of Inl e \<Rightarrow> Inl e | Inr x_true \<Rightarrow>
         (case bool_index y true_mask of Inl e \<Rightarrow> Inl e | Inr y_true \<Rightarrow>
         (case bool_index x anti_mask of Inl e \<Rightarrow> Inl e | Inr x_false \<Rightarrow>
         (case bool_index y anti_mask of Inl e \<Rightarrow> Inl e | Inr y_false \<Rightarrow>
            Inr (x_true, y_true, x_false, y_false)))))"

subsection \<open>\<open>MAE\<close>\<close>

text \<open>Python's \<open>/\<close> on two lengths.\<close>

definition len_div :: "nat \<Rightarrow> nat \<Rightarrow> error + 'a::linordered_field val" where
  "len_div n d = (if d = 0 then Inl ZeroDivisionError else Inr (Fin (of_nat n / of_nat d)))"

text \<open>The three means and \<open>old_mae\<close> are computed first (none of them raises); the
  statement for \<open>new_mae\<close> then divides by \<open>len(y)\<close> twice, left operand first.\<close>

definition MAE ::
  "'a::linordered_field list \<Rightarrow> 'a list \<Rightarrow> 'a list \<Rightarrow> error + ('a val \<times> 'a val)" where
  "MAE y y_true y_false =
     (let y_true_hat = np_mean (map Fin y_true);
          y_false_hat = np_mean (map Fin y_false);
          y_hat = np_mean (map Fin y);
          old_mae = np_mean (np_absolute (np_sub (map Fin y) y_hat))
      in case len_div (length y_true) (length y) of Inl e \<Rightarrow> Inl e | Inr w_true \<Rightarrow>
         (case len_div (length y_false) (length y) of Inl e \<Rightarrow> Inl e | Inr w_false \<Rightarrow>
            Inr (old_mae,
                 val_add
                   (val_mul w_true (np_mean (np_absolute (np_sub (map Fin y_true) y_true_hat))))
                   (val_mul w_false
                      (np_mean (np_absolute (np_sub (map Fin y_false) y_false_hat)))))))"

subsection \<open>\<open>get_best_split\<close>\<close>

text \<open>\<open>results\<close> is a \<open>dict\<close>: it iterates in insertion order, and assigning to a key
  that is present replaces the value where it stands. That is \<open>AList.update\<close> on an
  association list. \<open>data\<close> is the list of the rows of the array, a row being the pair
  of its first two columns.\<close>

type_synonym 'a results = "('a \<times> ('a val \<times> 'a val)) list"

fun split_loop ::
  "'a::linordered_field list \<Rightarrow> 'a list \<Rightarrow> 'a list \<Rightarrow> 'a results \<Rightarrow> error + 'a results" where
  "split_loop x y [] results = Inr results"
| "split_loop x y (point # split_pts) results =
     (case split_data x y point of Inl e \<Rightarrow> Inl e
      | Inr (x_true, y_true, x_false, y_false) \<Rightarrow>
          (case MAE y y_true y_false of Inl e \<Rightarrow> Inl e
           | Inr errors \<Rightarrow> split_loop x y split_pts (AList.update point errors results)))"

text \<open>\<open><\<close> on two pairs, as Python compares tuples: the first position where the
  components are not \<open>==\<close> decides by \<open><\<close>; equal pairs are not less. (The components are
  fresh objects of separate calls of \<open>MAE\<close>, so the identity shortcut of \<open>==\<close> never
  applies.)\<close>

fun tuple_less :: "'a::linordered_field val \<times> 'a val \<Rightarrow> 'a val \<times> 'a val \<Rightarrow> bool" where
  "tuple_less (a1, b1) (a2, b2) =
     (if \<not> val_eq a1 a2 then val_less a1 a2
      else if \<not> val_eq b1 b2 then val_less b1 b2
      else False)"

text \<open>\<open>min(results, key=results.get)\<close>: the keys are visited in order, the first is the
  initial candidate and a later key replaces the candidate when its value is \<open><\<close> the
  candidate's. Each entry of the list carries the value \<open>results.get\<close> returns for its key.\<close>

fun min_from ::
  "'a::linordered_field \<times> ('a val \<times> 'a val) \<Rightarrow> 'a results \<Rightarrow> 'a \<times> ('a val \<times> 'a val)" where
  "min_from cur [] = cur"
| "min_from cur (e # es) = min_from (if tuple_less (snd e) (snd cur) then e else cur) es"

fun min_key :: "'a::linordered_field results \<Rightarrow> error + 'a" where
  "min_key [] = Inl ValueError"
| "min_key (e # es) = Inr (fst (min_from e es))"

definition get_best_split ::
  "('a::linordered_field \<times> 'a) list \<Rightarrow> error + ('a results \<times> 'a)" where
  "get_best_split data =
     (let x = map fst data;
          y = map snd data;
          split_pts = splits x
      in case split_loop x y split_pts [] of Inl e \<Rightarrow> Inl e
         | Inr results \<Rightarrow>
             (case min_key results of Inl e \<Rightarrow> Inl e
              | Inr best_point \<Rightarrow> Inr (results, best_point)))"

subsection \<open>The error measures as formulas\<close>

text \<open>The mean absolute deviation \<open>mean(|a_i - mean(a)|)\<close> of a non-empty array, and the
  value the loop of \<open>get_best_split\<close> computes as \<open>new_mae\<close> for a threshold \<open>t\<close>:
  the deviations of the two partitions of the targets, weighted by their share of the
  samples, and \<open>nan\<close> as soon as one partition is empty. They are what the results
  below compare the code with.\<close>

definition mad :: "'a::linordered_field list \<Rightarrow> 'a" where
  "mad a = (\<Sum>v\<leftarrow>a. \<bar>v - sum_list a / of_nat (length a)\<bar>) / of_nat (length a)"

definition new_mae_at :: "'a::linordered_field list \<Rightarrow> 'a list \<Rightarrow> 'a \<Rightarrow> 'a val" where
  "new_mae_at x y t =
     (let y_true = map snd (filter (\<lambda>(a, b). a > t) (zip x y));
          y_false = map snd (filter (\<lambda>(a, b). a < t) (zip x y))
      in if y_true = [] \<or> y_false = [] then NaN
         else Fin (of_nat (length y_true) / of_nat (length y) * mad y_true
                   + of_nat (length y_false) / of_nat (length y) * mad y_false))"

section \<open>The functions in closed form\<close>

subsection \<open>\<open>splits\<close> and \<open>split_data\<close>\<close>

lemma splits_map:
  "splits x = map (\<lambda>i. (sort x ! i + sort x ! (i + 1)) / 2) [0..<length x - 1]"
proof -
  have "foldl (\<lambda>acc i. acc @ [f i]) a is = a @ map f is" for f :: "nat \<Rightarrow> 'a" and a "is"
    by (induction "is" arbitrary: a) simp_all
  then show ?thesis by (simp add: splits_def Let_def)
qed

lemma splits_nonempty: "2 \<le> length x \<Longrightarrow> splits x \<noteq> []"
  by (simp add: splits_map)

lemma splits_sorted: "sorted (splits x)"
proof -
  let ?s = "sort x"
  have "(?s ! i + ?s ! (i + 1)) / 2 \<le> (?s ! j + ?s ! (j + 1)) / 2"
    if "i < j" "j < length x - 1" for i j
  proof -
    have "?s ! i \<le> ?s ! j" using that by (intro sorted_nth_mono) simp_all
    moreover have "?s ! (i + 1) \<le> ?s ! (j + 1)" using that by (intro sorted_nth_mono) simp_all
    ultimately show ?thesis by (simp add: divide_right_mono)
  qed
  then show ?thesis
    by (simp add: splits_map sorted_iff_nth_mono_less)
qed

lemma sort_strict_step:
  assumes "distinct x" and "i + 1 < length x"
  shows "sort x ! i < sort x ! (i + 1)"
proof -
  have le: "sort x ! i \<le> sort x ! (i + 1)"
    using assms(2) by (intro sorted_nth_mono) simp_all
  have "distinct (sort x)" using assms(1) by simp
  then have "sort x ! i \<noteq> sort x ! (i + 1)"
    using assms(2) by (simp add: nth_eq_iff_index_eq)
  with le show ?thesis by simp
qed

text \<open>Below \<open>2^52\<close> in magnitude no sum wraps and no sum is rounded: \<open>splits_int64\<close>
  computes the exact midpoints, those of \<open>splits\<close>.\<close>

lemma bitlen_bound: "m < 2 ^ k \<Longrightarrow> bitlen m \<le> k"
proof (induction k arbitrary: m)
  case 0
  then show ?case by (simp add: bitlen.simps)
next
  case (Suc k)
  show ?case
  proof (cases "m \<le> 0")
    case True
    then show ?thesis by (simp add: bitlen.simps)
  next
    case False
    from Suc.prems have "m div 2 < 2 ^ k" by simp
    then have "bitlen (m div 2) \<le> k" by (rule Suc.IH)
    with False show ?thesis by (subst bitlen.simps) simp
  qed
qed

lemma float64_of_int_exact:
  assumes "\<bar>n\<bar> < 2 ^ 53"
  shows "float64_of_int n = of_int n"
proof -
  have "bitlen \<bar>n\<bar> - 53 = 0" using bitlen_bound [OF assms] by simp
  then have "float64_of_int n = of_int (sgn n * \<bar>n\<bar>)"
    by (simp add: float64_of_int_def Let_def)
  also have "\<dots> = of_int n" by (simp add: mult_sgn_abs)
  finally show ?thesis .
qed

lemma int64_add_exact:
  assumes "\<bar>a + b\<bar> < 2 ^ 63"
  shows "int64_add a b = a + b"
proof -
  have "0 \<le> a + b + 2 ^ 63" and "a + b + 2 ^ 63 < 2 ^ 64" using assms by simp_all
  then have "(a + b + 2 ^ 63) mod 2 ^ 64 = a + b + 2 ^ 63" by (rule mod_pos_pos_trivial)
  then show ?thesis by (simp add: int64_add_def)
qed

lemma midpoint_int64_exact:
  assumes "\<bar>a\<bar> < 2 ^ 52" and "\<bar>b\<bar> < 2 ^ 52"
  shows "float64_of_int (int64_add a b) / 2 = (of_int a + of_int b) / 2"
proof -
  have s: "\<bar>a + b\<bar> < 2 ^ 53" using assms by simp
  then have "\<bar>a + b\<bar> < 2 ^ 63" by simp
  then have "int64_add a b = a + b" by (rule int64_add_exact)
  with s show ?thesis by (simp add: float64_of_int_exact)
qed

lemma splits_int64_map:
  "splits_int64 x
     = map (\<lambda>i. float64_of_int (int64_add (sort x ! i) (sort x ! (i + 1))) / 2) [0..<length x - 1]"
proof -
  have "foldl (\<lambda>acc i. acc @ [f i]) a is = a @ map f is" for f :: "nat \<Rightarrow> rat" and a "is"
    by (induction "is" arbitrary: a) simp_all
  then show ?thesis by (simp add: splits_int64_def Let_def)
qed

lemma splits_int64_nth:
  assumes "\<forall>v\<in>set x. \<bar>v\<bar> < 2 ^ 52" and "i < length x - 1"
  shows "splits_int64 x ! i = (of_int (sort x ! i) + of_int (sort x ! (i + 1))) / 2"
proof -
  have "sort x ! i \<in> set x" and "sort x ! (i + 1) \<in> set x"
    using assms(2) nth_mem [of i "sort x"] nth_mem [of "i + 1" "sort x"] by simp_all
  with assms(1) have "\<bar>sort x ! i\<bar> < 2 ^ 52" and "\<bar>sort x ! (i + 1)\<bar> < 2 ^ 52" by blast+
  then have "float64_of_int (int64_add (sort x ! i) (sort x ! (i + 1))) / 2
               = (of_int (sort x ! i) + of_int (sort x ! (i + 1))) / 2"
    by (rule midpoint_int64_exact)
  with assms(2) show ?thesis by (simp add: splits_int64_map)
qed

lemma insort_of_int: "insort (of_int a :: rat) (map of_int ys) = map of_int (insort a ys)"
  by (induction ys) simp_all

lemma sort_of_int: "sort (map of_int x :: rat list) = map of_int (sort x)"
  by (induction x) (simp_all add: insort_of_int)

lemma splits_int64_exact:
  assumes "\<forall>v\<in>set x. \<bar>v\<bar> < 2 ^ 52"
  shows "splits_int64 x = splits (map of_int x)"
proof (rule nth_equalityI)
  show "length (splits_int64 x) = length (splits (map of_int x :: rat list))"
    by (simp add: splits_int64_map splits_map)
next
  fix i assume "i < length (splits_int64 x)"
  then have i: "i < length x - 1" by (simp add: splits_int64_map)
  then show "splits_int64 x ! i = splits (map of_int x) ! i"
    by (simp add: splits_int64_nth [OF assms i] splits_map sort_of_int)
qed

lemma bool_index_filter:
  "bool_index a (map p x) =
     (if length x \<noteq> length a \<and> x \<noteq> [] then Inl IndexError
      else Inr (map fst (filter (\<lambda>(u, v). p v) (zip a x))))"
proof -
  have "map fst (filter snd (zip a (map p x))) = map fst (filter (\<lambda>(u, v). p v) (zip a x))"
    by (induction a x rule: list_induct2') simp_all
  then show ?thesis by (simp add: bool_index_def)
qed

lemma zip_self_filter: "map fst (filter (\<lambda>(u, v). p v) (zip x x)) = filter p x"
  by (induction x) simp_all

lemma zip_swap_filter:
  "length y = length x \<Longrightarrow>
     map fst (filter (\<lambda>(u, v). p v) (zip y x)) = map snd (filter (\<lambda>(a, b). p a) (zip x y))"
  by (induction y x rule: list_induct2) simp_all

lemma split_data_eq:
  assumes "length x = length y"
  shows "split_data x y t =
           Inr (filter (\<lambda>v. v > t) x, map snd (filter (\<lambda>(a, b). a > t) (zip x y)),
                filter (\<lambda>v. v < t) x, map snd (filter (\<lambda>(a, b). a < t) (zip x y)))"
  using assms by (simp add: split_data_def bool_index_filter zip_self_filter zip_swap_filter)

lemma filter_by_index:
  assumes "length a = length x"
  shows "map fst (filter (\<lambda>(u, v). p v) (zip a x))
           = map ((!) a) (filter (\<lambda>i. p (x ! i)) [0..<length x])"
proof -
  have "zip a x = map (\<lambda>i. (a ! i, x ! i)) [0..<length x]"
    using assms by (intro nth_equalityI) simp_all
  then have "map fst (filter (\<lambda>(u, v). p v) (zip a x))
             = map fst (filter (\<lambda>(u, v). p v) (map (\<lambda>i. (a ! i, x ! i)) [0..<length x]))"
    by simp
  also have "\<dots> = map ((!) a) (filter (\<lambda>i. p (x ! i)) [0..<length x])"
    by (simp add: filter_map comp_def)
  finally show ?thesis .
qed

subsection \<open>\<open>MAE\<close>\<close>

lemma foldl_val_add: "foldl val_add (Fin s) (map Fin a) = Fin (s + sum_list a)"
  by (induction a arbitrary: s) (simp_all add: add.assoc)

lemma np_mean_Fin:
  "np_mean (map Fin a) = (if a = [] then NaN else Fin (sum_list a / of_nat (length a)))"
  by (simp add: np_mean_def foldl_val_add)

lemma np_mean_Nil: "np_mean [] = NaN"
  by (simp add: np_mean_def)

lemma abs_dev_Fin:
  "np_absolute (np_sub (map Fin a) (Fin c)) = map Fin (map (\<lambda>v. \<bar>v - c\<bar>) a)"
  by (simp add: np_absolute_def np_sub_def)

lemma mean_abs_dev:
  "np_mean (np_absolute (np_sub (map Fin a) (np_mean (map Fin a))))
     = (if a = [] then NaN else Fin (mad a))"
proof (cases "a = []")
  case True
  then show ?thesis by (simp add: np_sub_def np_absolute_def np_mean_Nil)
next
  case False
  have "np_mean (np_absolute (np_sub (map Fin a) (Fin c)))
          = Fin ((\<Sum>v\<leftarrow>a. \<bar>v - c\<bar>) / of_nat (length a))" for c
    unfolding abs_dev_Fin using False np_mean_Fin [of "map (\<lambda>v. \<bar>v - c\<bar>) a"] by simp
  with False show ?thesis by (simp add: np_mean_Fin mad_def)
qed

lemma MAE_eq:
  "MAE y y_true y_false =
     (if y = [] then Inl ZeroDivisionError
      else Inr (Fin (mad y),
                if y_true = [] \<or> y_false = [] then NaN
                else Fin (of_nat (length y_true) / of_nat (length y) * mad y_true
                          + of_nat (length y_false) / of_nat (length y) * mad y_false)))"
  by (simp add: MAE_def Let_def len_div_def mean_abs_dev)

subsection \<open>The loop over the thresholds\<close>

text \<open>Assigning \<open>f k\<close> to the key \<open>k\<close> of a dictionary whose values all are \<open>f\<close> of their
  keys changes nothing when \<open>k\<close> is present, and appends the entry otherwise.\<close>

lemma update_same:
  assumes "\<forall>e\<in>set al. snd e = f (fst e)"
  shows "AList.update k (f k) al = (if k \<in> fst ` set al then al else al @ [(k, f k)])"
  using assms by (induction al) (auto simp: prod_eq_iff)

lemma update_fold_values:
  assumes "\<forall>e\<in>set acc. snd e = f (fst e)"
  shows "\<forall>e\<in>set (foldl (\<lambda>r p. AList.update p (f p) r) acc pts). snd e = f (fst e)"
  using assms
proof (induction pts arbitrary: acc)
  case Nil
  then show ?case by simp
next
  case (Cons p pts)
  have "\<forall>e\<in>set (AList.update p (f p) acc). snd e = f (fst e)"
    using Cons.prems by (auto simp: update_same)
  from Cons.IH [OF this] show ?case by simp
qed

lemma update_fold_keys:
  assumes "\<forall>e\<in>set acc. snd e = f (fst e)"
  shows "fst ` set (foldl (\<lambda>r p. AList.update p (f p) r) acc pts) = fst ` set acc \<union> set pts"
  using assms
proof (induction pts arbitrary: acc)
  case Nil
  then show ?case by simp
next
  case (Cons p pts)
  have v: "\<forall>e\<in>set (AList.update p (f p) acc). snd e = f (fst e)"
    using Cons.prems by (auto simp: update_same)
  have "fst ` set (AList.update p (f p) acc) = insert p (fst ` set acc)"
    using Cons.prems by (auto simp: update_same)
  with Cons.IH [OF v] show ?case by simp
qed

lemma update_fold_hd:
  assumes "\<forall>e\<in>set acc. snd e = f (fst e)" and "acc \<noteq> []"
  shows "\<exists>es. foldl (\<lambda>r p. AList.update p (f p) r) acc pts = hd acc # es"
  using assms
proof (induction pts arbitrary: acc)
  case Nil
  then show ?case by (cases acc) simp_all
next
  case (Cons p pts)
  have v: "\<forall>e\<in>set (AList.update p (f p) acc). snd e = f (fst e)"
    using Cons.prems(1) by (auto simp: update_same)
  have h: "AList.update p (f p) acc \<noteq> [] \<and> hd (AList.update p (f p) acc) = hd acc"
    using Cons.prems by (auto simp: update_same)
  from Cons.IH [OF v] h show ?case by simp
qed

text \<open>The thresholds arrive in ascending order, so the keys of the dictionary stay in
  strictly ascending order.\<close>

lemma update_fold_sorted:
  assumes "\<forall>e\<in>set acc. snd e = f (fst e)"
    and "sorted_wrt (<) (map fst acc)"
    and "\<forall>k\<in>fst ` set acc. \<forall>p\<in>set pts. k \<le> p"
    and "sorted pts"
  shows "sorted_wrt (<) (map fst (foldl (\<lambda>r p. AList.update p (f p) r) acc pts))"
  using assms
proof (induction pts arbitrary: acc)
  case Nil
  then show ?case by simp
next
  case (Cons p pts)
  let ?acc = "AList.update p (f p) acc"
  have v: "\<forall>e\<in>set ?acc. snd e = f (fst e)"
    using Cons.prems(1) by (auto simp: update_same)
  have s: "sorted_wrt (<) (map fst ?acc)"
  proof (cases "p \<in> fst ` set acc")
    case True
    then show ?thesis using Cons.prems(1,2) by (simp add: update_same)
  next
    case False
    have "\<forall>k\<in>set (map fst acc). k < p"
    proof
      fix k assume k: "k \<in> set (map fst acc)"
      then have "k \<le> p" using Cons.prems(3) by auto
      moreover have "k \<noteq> p" using k False by auto
      ultimately show "k < p" by simp
    qed
    then show ?thesis using False Cons.prems(1,2) by (simp add: update_same sorted_wrt_append)
  qed
  have b: "\<forall>k\<in>fst ` set ?acc. \<forall>q\<in>set pts. k \<le> q"
  proof (intro ballI)
    fix k q assume k: "k \<in> fst ` set ?acc" and q: "q \<in> set pts"
    have "fst ` set ?acc \<subseteq> insert p (fst ` set acc)"
      using Cons.prems(1) by (auto simp: update_same)
    with k have "k = p \<or> k \<in> fst ` set acc" by auto
    then show "k \<le> q"
      using Cons.prems(3,4) q by auto
  qed
  have "sorted pts" using Cons.prems(4) by simp
  from Cons.IH [OF v s b this] show ?case by simp
qed


lemma split_loop_eq:
  assumes "length x = length y" and "y \<noteq> []"
  shows "split_loop x y pts acc
           = Inr (foldl (\<lambda>r p. AList.update p (Fin (mad y), new_mae_at x y p) r) acc pts)"
proof (induction pts arbitrary: acc)
  case Nil
  show ?case by simp
next
  case (Cons p pts)
  have "MAE y (map snd (filter (\<lambda>(a, b). a > p) (zip x y)))
              (map snd (filter (\<lambda>(a, b). a < p) (zip x y)))
          = Inr (Fin (mad y), new_mae_at x y p)"
    using assms(2) by (simp add: MAE_eq new_mae_at_def Let_def)
  then show ?case by (simp add: split_data_eq [OF assms(1)] Cons.IH)
qed

lemma new_mae_at_defined:
  assumes "new_mae_at x y t \<noteq> NaN"
  shows "map snd (filter (\<lambda>(a, b). a > t) (zip x y)) \<noteq> [] \<and>
         map snd (filter (\<lambda>(a, b). a < t) (zip x y)) \<noteq> []"
  using assms unfolding new_mae_at_def Let_def by (metis (lifting))

subsection \<open>The choice of the best threshold\<close>

lemma min_from_mem: "min_from cur es \<in> set (cur # es)"
  by (induction es arbitrary: cur) (simp, force)

lemma tuple_less_same_old: "tuple_less (Fin c, n1) (Fin c, n2) \<Longrightarrow> n1 \<noteq> NaN"
  by (cases n1) simp_all

text \<open>When all entries carry the same \<open>old_mae\<close>, a key replaces the candidate only if its
  \<open>new_mae\<close> is a number: the result is the first entry or has a \<open>new_mae\<close> that is not
  \<open>nan\<close>.\<close>

lemma min_from_first_or_defined:
  assumes "\<forall>e\<in>set (cur # es). fst (snd e) = Fin c"
  shows "min_from cur es = cur \<or> snd (snd (min_from cur es)) \<noteq> NaN"
  using assms
proof (induction es arbitrary: cur)
  case Nil
  show ?case by simp
next
  case (Cons e es)
  show ?case
  proof (cases "tuple_less (snd e) (snd cur)")
    case True
    have olds: "fst (snd e) = Fin c" "fst (snd cur) = Fin c" using Cons.prems by simp_all
    have "tuple_less (Fin c, snd (snd e)) (Fin c, snd (snd cur))"
      using True olds by (metis prod.collapse)
    then have d: "snd (snd e) \<noteq> NaN" by (rule tuple_less_same_old)
    have "\<forall>e'\<in>set (e # es). fst (snd e') = Fin c" using Cons.prems by simp
    from Cons.IH [OF this] d True show ?thesis by auto
  next
    case False
    have "\<forall>e'\<in>set (cur # es). fst (snd e') = Fin c" using Cons.prems by simp
    from Cons.IH [OF this] False show ?thesis by simp
  qed
qed

lemma tuple_less_same_old_iff:
  "tuple_less (Fin c, n1) (Fin c, Fin b) \<longleftrightarrow> (\<exists>a. n1 = Fin a \<and> a < b)"
  by (cases n1) auto

text \<open>When moreover the first entry's \<open>new_mae\<close> is a number and the keys ascend, the
  result carries the least \<open>new_mae\<close> among the entries whose \<open>new_mae\<close> is a number,
  and the smallest key among those that carry it.\<close>

lemma min_from_least:
  assumes "\<forall>e\<in>set (cur # es). fst (snd e) = Fin c"
    and "snd (snd cur) = Fin b0"
    and "sorted_wrt (<) (map fst (cur # es))"
  shows "\<exists>b. snd (snd (min_from cur es)) = Fin b \<and>
             (\<forall>e\<in>set (cur # es). \<forall>a. snd (snd e) = Fin a \<longrightarrow>
                b \<le> a \<and> (a = b \<longrightarrow> fst (min_from cur es) \<le> fst e))"
  using assms
proof (induction es arbitrary: cur b0)
  case Nil
  then show ?case by simp
next
  case (Cons e es)
  have cur: "snd cur = (Fin c, Fin b0)"
    using Cons.prems(1,2) by (simp add: prod_eq_iff)
  have e: "snd e = (Fin c, snd (snd e))"
    using Cons.prems(1) by (simp add: prod_eq_iff)
  show ?case
  proof (cases "tuple_less (snd e) (snd cur)")
    case True
    then obtain a0 where a0: "snd (snd e) = Fin a0" "a0 < b0"
      using cur e tuple_less_same_old_iff [of c "snd (snd e)" b0] by metis
    have o: "\<forall>e'\<in>set (e # es). fst (snd e') = Fin c" using Cons.prems(1) by simp
    have s: "sorted_wrt (<) (map fst (e # es))" using Cons.prems(3) by simp
    from Cons.IH [OF o a0(1) s] obtain b where
      b: "snd (snd (min_from e es)) = Fin b" and
      l: "\<forall>e'\<in>set (e # es). \<forall>a. snd (snd e') = Fin a \<longrightarrow>
            b \<le> a \<and> (a = b \<longrightarrow> fst (min_from e es) \<le> fst e')"
      by blast
    from l a0(1) have "b \<le> a0" by simp
    with a0(2) have "b < b0" by simp
    with b l Cons.prems(2) True show ?thesis by auto
  next
    case False
    have o: "\<forall>e'\<in>set (cur # es). fst (snd e') = Fin c" using Cons.prems(1) by simp
    have s: "sorted_wrt (<) (map fst (cur # es))" using Cons.prems(3) by simp
    from Cons.IH [OF o Cons.prems(2) s] obtain b where
      b: "snd (snd (min_from cur es)) = Fin b" and
      l: "\<forall>e'\<in>set (cur # es). \<forall>a. snd (snd e') = Fin a \<longrightarrow>
            b \<le> a \<and> (a = b \<longrightarrow> fst (min_from cur es) \<le> fst e')"
      by blast
    from l Cons.prems(2) have b0: "b \<le> b0" "b0 = b \<longrightarrow> fst (min_from cur es) \<le> fst cur"
      by simp_all
    have lt: "fst cur < fst e" using Cons.prems(3) by simp
    have "b \<le> a \<and> (a = b \<longrightarrow> fst (min_from cur es) \<le> fst e)" if a: "snd (snd e) = Fin a" for a
    proof -
      have "\<not> a < b0"
        using False cur e a tuple_less_same_old_iff [of c "snd (snd e)" b0] by metis
      then have "b0 \<le> a" by simp
      with b0 lt show ?thesis by auto
    qed
    with b l False show ?thesis by auto
  qed
qed

text \<open>On at least two rows \<open>get_best_split\<close> returns: the mapping starts with the first
  threshold, maps every threshold of \<open>splits\<close> and nothing else, each to its pair of
  errors, in strictly ascending order of the thresholds, and the best threshold is the one
  \<open>min\<close> picks.\<close>

lemma get_best_split_shape:
  fixes data :: "('a::linordered_field \<times> 'a) list"
  assumes "2 \<le> length data"
  obtains e es where
    "get_best_split data = Inr (e # es, fst (min_from e es))"
    "fst e = hd (splits (map fst data))"
    "\<forall>e'\<in>set (e # es).
       snd e' = (Fin (mad (map snd data)), new_mae_at (map fst data) (map snd data) (fst e'))"
    "fst ` set (e # es) = set (splits (map fst data))"
    "sorted_wrt (<) (map fst (e # es))"
proof -
  let ?x = "map fst data" and ?y = "map snd data"
  let ?f = "\<lambda>p. (Fin (mad ?y), new_mae_at ?x ?y p)"
  have len: "length ?x = length ?y" and ne: "?y \<noteq> []"
    using assms by auto
  obtain p ps where sp: "splits ?x = p # ps"
    using splits_nonempty [of ?x] assms by (cases "splits ?x") simp_all
  let ?r = "foldl (\<lambda>r p. AList.update p (?f p) r) [(p, ?f p)] ps"
  have v0: "\<forall>e\<in>set [(p, ?f p)]. snd e = ?f (fst e)" by simp
  have loop: "split_loop ?x ?y (splits ?x) [] = Inr ?r"
    unfolding split_loop_eq [OF len ne] sp by simp
  obtain es where es: "?r = (p, ?f p) # es"
    using update_fold_hd [OF v0, of ps] by auto
  have vals: "\<forall>e\<in>set ?r. snd e = ?f (fst e)" by (rule update_fold_values [OF v0])
  have keys: "fst ` set ?r = set (splits ?x)"
    using update_fold_keys [OF v0, of ps] by (simp add: sp)
  have "sorted (p # ps)" using splits_sorted [of ?x] by (simp add: sp)
  then have "\<forall>k\<in>fst ` set [(p, ?f p)]. \<forall>q\<in>set ps. k \<le> q" and "sorted ps"
    by simp_all
  then have srt: "sorted_wrt (<) (map fst ?r)"
    by (intro update_fold_sorted [OF v0]) simp_all
  have "get_best_split data = Inr ((p, ?f p) # es, fst (min_from (p, ?f p) es))"
    using loop es by (simp add: get_best_split_def Let_def)
  moreover have "fst (p, ?f p) = hd (splits ?x)" by (simp add: sp)
  ultimately show thesis using vals keys srt unfolding es by (rule that)
qed

text \<open>In exact arithmetic: when the first threshold's \<open>new_mae\<close> is a number, that is,
  when the smallest feature value occurs once, the threshold returned has the least
  \<open>new_mae\<close> among the thresholds whose \<open>new_mae\<close> is a number, and is the smallest such
  threshold.\<close>

lemma best_split_minimal:
  fixes data :: "('a::linordered_field \<times> 'a) list"
  assumes "2 \<le> length data"
    and "new_mae_at (map fst data) (map snd data) (hd (splits (map fst data))) \<noteq> NaN"
  shows "\<exists>results best b.
           get_best_split data = Inr (results, best) \<and>
           best \<in> set (splits (map fst data)) \<and>
           new_mae_at (map fst data) (map snd data) best = Fin b \<and>
           (\<forall>k\<in>set (splits (map fst data)). \<forall>a.
              new_mae_at (map fst data) (map snd data) k = Fin a \<longrightarrow>
                b \<le> a \<and> (a = b \<longrightarrow> best \<le> k))"
proof -
  let ?x = "map fst data" and ?y = "map snd data"
  from assms(1) obtain e es where
    r: "get_best_split data = Inr (e # es, fst (min_from e es))" and
    h: "fst e = hd (splits ?x)" and
    v: "\<forall>e'\<in>set (e # es). snd e' = (Fin (mad ?y), new_mae_at ?x ?y (fst e'))" and
    k: "fst ` set (e # es) = set (splits ?x)" and
    s: "sorted_wrt (<) (map fst (e # es))"
    by (rule get_best_split_shape)
  let ?m = "min_from e es"
  have olds: "\<forall>e'\<in>set (e # es). fst (snd e') = Fin (mad ?y)" using v by simp
  have news: "\<forall>e'\<in>set (e # es). snd (snd e') = new_mae_at ?x ?y (fst e')" using v by simp
  from news h assms(2) obtain b0 where b0: "snd (snd e) = Fin b0"
    by (cases "snd (snd e)") simp_all
  from min_from_least [OF olds b0 s] obtain b where
    b: "snd (snd ?m) = Fin b" and
    l: "\<forall>e'\<in>set (e # es). \<forall>a. snd (snd e') = Fin a \<longrightarrow> b \<le> a \<and> (a = b \<longrightarrow> fst ?m \<le> fst e')"
    by blast
  have mem: "?m \<in> set (e # es)" by (rule min_from_mem)
  then have bk: "fst ?m \<in> set (splits ?x)" using k by blast
  have bn: "new_mae_at ?x ?y (fst ?m) = Fin b"
  proof -
    from news mem have "snd (snd ?m) = new_mae_at ?x ?y (fst ?m)" by (rule bspec)
    with b show ?thesis by simp
  qed
  have least: "\<forall>t\<in>set (splits ?x). \<forall>a. new_mae_at ?x ?y t = Fin a \<longrightarrow>
                 b \<le> a \<and> (a = b \<longrightarrow> fst ?m \<le> t)"
  proof (intro ballI allI impI)
    fix t a
    assume t: "t \<in> set (splits ?x)" and a: "new_mae_at ?x ?y t = Fin a"
    from t k have "t \<in> fst ` set (e # es)" by simp
    then obtain e' where e': "e' \<in> set (e # es)" "fst e' = t" by (auto simp del: set_simps)
    from news e'(1) have "snd (snd e') = new_mae_at ?x ?y (fst e')" by (rule bspec)
    with a e'(2) have "snd (snd e') = Fin a" by simp
    moreover from l e'(1)
    have "\<forall>a. snd (snd e') = Fin a \<longrightarrow> b \<le> a \<and> (a = b \<longrightarrow> fst ?m \<le> fst e')"
      by (rule bspec)
    ultimately have "b \<le> a \<and> (a = b \<longrightarrow> fst ?m \<le> fst e')" by simp
    then show "b \<le> a \<and> (a = b \<longrightarrow> fst ?m \<le> t)" unfolding e'(2) .
  qed
  show ?thesis
    by (intro exI conjI) (rule r, rule bk, rule bn, rule least)
qed

subsection \<open>A feature column with a single value\<close>





section \<open>The notebook's example\<close>

text \<open>C1. On the array with feature column \<open>[7,30,27,80,43]\<close> and target column
  \<open>[53,28,83,25,75]\<close>, \<open>get_best_split\<close> returns the best threshold \<open>61.5\<close>, and the
  mapping it returns records \<open>old_mae = 21.04\<close> and \<open>new_mae = 15.4\<close> for that threshold,
  exactly. The whole mapping is the one the notebook prints.\<close>

theorem get_best_split_example:
  "get_best_split [(7, 53), (30, 28), (27, 83), (80, 25), (43, 75 :: rat)]
     = Inr ([(17, (Fin (526 / 25), Fin 21)),
             (57 / 2, (Fin (526 / 25), Fin (284 / 15))),
             (73 / 2, (Fin (526 / 25), Fin (64 / 3))),
             (123 / 2, (Fin (526 / 25), Fin (77 / 5)))],
            123 / 2)"
  by code_simp

section \<open>The threshold generator\<close>

text \<open>C3, as the code has it. For an \<open>int64\<close> array \<open>x\<close> of \<open>n \<ge> 2\<close> distinct values
  of magnitude below \<open>2^52\<close>, \<open>splits\<close> returns exactly \<open>n - 1\<close> elements; the \<open>i\<close>-th
  is the arithmetic midpoint of the \<open>i\<close>-th and the \<open>(i+1)\<close>-th element of the sorted copy
  of \<open>x\<close>, and lies strictly between the two.\<close>

theorem splits_int64_midpoints:
  assumes "distinct x" and "2 \<le> length x" and "\<forall>v\<in>set x. \<bar>v\<bar> < 2 ^ 52"
  shows "length (splits_int64 x) = length x - 1 \<and>
         (\<forall>i<length x - 1.
            splits_int64 x ! i = (of_int (sort x ! i) + of_int (sort x ! (i + 1))) / 2 \<and>
            of_int (sort x ! i) < splits_int64 x ! i \<and>
            splits_int64 x ! i < of_int (sort x ! (i + 1)))"
proof (intro conjI allI impI)
  show "length (splits_int64 x) = length x - 1" by (simp add: splits_int64_map)
next
  fix i assume i: "i < length x - 1"
  then have "sort x ! i < sort x ! (i + 1)"
    using assms(1) by (intro sort_strict_step) simp_all
  then have lt: "(of_int (sort x ! i) :: rat) < of_int (sort x ! (i + 1))" by simp
  show mid: "splits_int64 x ! i = (of_int (sort x ! i) + of_int (sort x ! (i + 1))) / 2"
    by (rule splits_int64_nth [OF assms(3) i])
  show "of_int (sort x ! i) < splits_int64 x ! i" unfolding mid using lt by (simp add: field_simps)
  show "splits_int64 x ! i < of_int (sort x ! (i + 1))" unfolding mid using lt by (simp add: field_simps)
qed

theorem splits_int64_midpoints_witness:
  "distinct [7, 30, 27, 80, 43 :: int] \<and> 2 \<le> length [7, 30, 27, 80, 43 :: int] \<and>
   length (splits_int64 [7, 30, 27, 80, 43]) = length [7, 30, 27, 80, 43 :: int] - 1 \<and>
   splits_int64 [7, 30, 27, 80, 43] ! 3
     = (of_int (sort [7, 30, 27, 80, 43 :: int] ! 3)
          + of_int (sort [7, 30, 27, 80, 43 :: int] ! (3 + 1))) / 2 \<and>
   of_int (sort [7, 30, 27, 80, 43 :: int] ! 3) < splits_int64 [7, 30, 27, 80, 43] ! 3 \<and>
   splits_int64 [7, 30, 27, 80, 43] ! 3 < of_int (sort [7, 30, 27, 80, 43 :: int] ! (3 + 1))"
proof -
  have d: "distinct [7, 30, 27, 80, 43 :: int]" by simp
  have l: "2 \<le> length [7, 30, 27, 80, 43 :: int]" by simp
  have b: "\<forall>v\<in>set [7, 30, 27, 80, 43 :: int]. \<bar>v\<bar> < 2 ^ 52" by simp
  have i: "3 < length [7, 30, 27, 80, 43 :: int] - 1" by simp
  note t = splits_int64_midpoints [OF d l b]
  from t have n: "length (splits_int64 [7, 30, 27, 80, 43]) = length [7, 30, 27, 80, 43 :: int] - 1"
    by (rule conjunct1)
  from t have
    "\<forall>i<length [7, 30, 27, 80, 43 :: int] - 1.
       splits_int64 [7, 30, 27, 80, 43] ! i
         = (of_int (sort [7, 30, 27, 80, 43 :: int] ! i)
              + of_int (sort [7, 30, 27, 80, 43 :: int] ! (i + 1))) / 2 \<and>
       of_int (sort [7, 30, 27, 80, 43 :: int] ! i) < splits_int64 [7, 30, 27, 80, 43] ! i \<and>
       splits_int64 [7, 30, 27, 80, 43] ! i < of_int (sort [7, 30, 27, 80, 43 :: int] ! (i + 1))"
    by (rule conjunct2)
  then have f:
    "3 < length [7, 30, 27, 80, 43 :: int] - 1 \<longrightarrow>
       splits_int64 [7, 30, 27, 80, 43] ! 3
         = (of_int (sort [7, 30, 27, 80, 43 :: int] ! 3)
              + of_int (sort [7, 30, 27, 80, 43 :: int] ! (3 + 1))) / 2 \<and>
       of_int (sort [7, 30, 27, 80, 43 :: int] ! 3) < splits_int64 [7, 30, 27, 80, 43] ! 3 \<and>
       splits_int64 [7, 30, 27, 80, 43] ! 3 < of_int (sort [7, 30, 27, 80, 43 :: int] ! (3 + 1))"
    by (rule spec)
  have m:
    "splits_int64 [7, 30, 27, 80, 43] ! 3
       = (of_int (sort [7, 30, 27, 80, 43 :: int] ! 3)
            + of_int (sort [7, 30, 27, 80, 43 :: int] ! (3 + 1))) / 2 \<and>
     of_int (sort [7, 30, 27, 80, 43 :: int] ! 3) < splits_int64 [7, 30, 27, 80, 43] ! 3 \<and>
     splits_int64 [7, 30, 27, 80, 43] ! 3 < of_int (sort [7, 30, 27, 80, 43 :: int] ! (3 + 1))"
    by (rule mp [OF f i])
  show ?thesis by (rule conjI [OF d conjI [OF l conjI [OF n m]]])
qed

text \<open>The claim does not hold for all distinct numbers the code can receive. On the
  \<open>int64\<close> array \<open>[2^62, 2^62 + 2]\<close> the sum wraps around and the one threshold returned
  is \<open>- 2^62\<close>, below both elements. On \<open>[2^53, 2^53 + 1]\<close> the sum \<open>2^54 + 1\<close> is rounded
  to \<open>2^54\<close> by the conversion to \<open>float64\<close> and the threshold returned is \<open>2^53\<close>, the
  smaller element itself.\<close>

theorem splits_int64_midpoints_counterexample:
  "splits_int64 [4611686018427387904, 4611686018427387906] = [- 4611686018427387904] \<and>
   \<not> of_int (sort [4611686018427387904, 4611686018427387906 :: int] ! 0)
       < splits_int64 [4611686018427387904, 4611686018427387906] ! 0 \<and>
   splits_int64 [9007199254740992, 9007199254740993] = [9007199254740992] \<and>
   \<not> of_int (sort [9007199254740992, 9007199254740993 :: int] ! 0)
       < splits_int64 [9007199254740992, 9007199254740993] ! 0"
  by code_simp

text \<open>C7, as the code has it. \<open>splits\<close> raises nothing on a sequence of length 0 or 1:
  the range of the loop is empty and the empty list is returned.\<close>

theorem splits_short:
  assumes "length x \<le> 1"
  shows "splits x = []"
  using assms by (simp add: splits_map)

theorem splits_short_witness: "length [7 :: rat] \<le> 1 \<and> splits [7 :: rat] = []"
proof -
  have l: "length [7 :: rat] \<le> 1" by simp
  show ?thesis by (rule conjI [OF l splits_short [OF l]])
qed

text \<open>The claim of an \<open>InvalidInput\<close> failure does not hold on the empty sequence nor on
  a sequence of one element: both calls return a list.\<close>

theorem splits_short_counterexample: "splits ([] :: rat list) = [] \<and> splits [3 :: rat] = []"
  by (simp add: splits_def)

section \<open>The partitioner\<close>

text \<open>C4. For a feature array \<open>x\<close>, a target array \<open>y\<close> of the same length and a threshold
  \<open>t\<close>, \<open>split_data\<close> returns the features and the targets of exactly the samples whose
  feature is greater than \<open>t\<close>, and those of exactly the samples whose feature is less
  than \<open>t\<close>, in their order; no returned sample has the feature \<open>t\<close>, and the two
  partitions together with the samples of feature \<open>t\<close> count all \<open>n\<close> samples.\<close>

theorem split_data_partition:
  assumes "length x = length y"
  shows "split_data x y t =
           Inr (map fst (filter (\<lambda>(a, b). a > t) (zip x y)),
                map snd (filter (\<lambda>(a, b). a > t) (zip x y)),
                map fst (filter (\<lambda>(a, b). a < t) (zip x y)),
                map snd (filter (\<lambda>(a, b). a < t) (zip x y))) \<and>
         (\<forall>(a, b) \<in> set (filter (\<lambda>(a, b). a > t) (zip x y))
                      \<union> set (filter (\<lambda>(a, b). a < t) (zip x y)). a \<noteq> t) \<and>
         length (filter (\<lambda>(a, b). a > t) (zip x y))
           + length (filter (\<lambda>(a, b). a < t) (zip x y))
           + length (filter (\<lambda>(a, b). a = t) (zip x y)) = length x"
proof (intro conjI)
  have fz: "filter p x = map fst (filter (\<lambda>(a, b). p a) (zip x y))" for p
    using assms by (induction x y rule: list_induct2) simp_all
  show "split_data x y t =
           Inr (map fst (filter (\<lambda>(a, b). a > t) (zip x y)),
                map snd (filter (\<lambda>(a, b). a > t) (zip x y)),
                map fst (filter (\<lambda>(a, b). a < t) (zip x y)),
                map snd (filter (\<lambda>(a, b). a < t) (zip x y)))"
    unfolding split_data_eq [OF assms] fz [of "\<lambda>v. v > t"] fz [of "\<lambda>v. v < t"] ..
  show "\<forall>(a, b) \<in> set (filter (\<lambda>(a, b). a > t) (zip x y))
                      \<union> set (filter (\<lambda>(a, b). a < t) (zip x y)). a \<noteq> t"
    by auto
  show "length (filter (\<lambda>(a, b). a > t) (zip x y))
           + length (filter (\<lambda>(a, b). a < t) (zip x y))
           + length (filter (\<lambda>(a, b). a = t) (zip x y)) = length x"
    using assms by (induction x y rule: list_induct2) auto
qed

theorem split_data_partition_witness:
  "length [1, 2, 3 :: rat] = length [10, 20, 30 :: rat] \<and>
   split_data [1, 2, 3 :: rat] [10, 20, 30] 2 = Inr ([3], [30], [1], [10]) \<and>
   length (filter (\<lambda>(a, b). a > 2) (zip [1, 2, 3 :: rat] [10, 20, 30 :: rat]))
     + length (filter (\<lambda>(a, b). a < 2) (zip [1, 2, 3 :: rat] [10, 20, 30 :: rat]))
     + length (filter (\<lambda>(a, b). a = 2) (zip [1, 2, 3 :: rat] [10, 20, 30 :: rat]))
     = length [1, 2, 3 :: rat]"
proof -
  have l: "length [1, 2, 3 :: rat] = length [10, 20, 30 :: rat]" by simp
  note t = split_data_partition [OF l, of 2]
  from t have
    "split_data [1, 2, 3 :: rat] [10, 20, 30] 2 =
       Inr (map fst (filter (\<lambda>(a, b). a > 2) (zip [1, 2, 3 :: rat] [10, 20, 30 :: rat])),
            map snd (filter (\<lambda>(a, b). a > 2) (zip [1, 2, 3 :: rat] [10, 20, 30 :: rat])),
            map fst (filter (\<lambda>(a, b). a < 2) (zip [1, 2, 3 :: rat] [10, 20, 30 :: rat])),
            map snd (filter (\<lambda>(a, b). a < 2) (zip [1, 2, 3 :: rat] [10, 20, 30 :: rat])))"
    by (rule conjunct1)
  then have e: "split_data [1, 2, 3 :: rat] [10, 20, 30] 2 = Inr ([3], [30], [1], [10])"
    by simp
  from t have c:
    "length (filter (\<lambda>(a, b). a > 2) (zip [1, 2, 3 :: rat] [10, 20, 30 :: rat]))
     + length (filter (\<lambda>(a, b). a < 2) (zip [1, 2, 3 :: rat] [10, 20, 30 :: rat]))
     + length (filter (\<lambda>(a, b). a = 2) (zip [1, 2, 3 :: rat] [10, 20, 30 :: rat]))
     = length [1, 2, 3 :: rat]"
    by (elim conjE)
  show ?thesis by (rule conjI [OF l conjI [OF e c]])
qed

text \<open>C10. For arrays of the same length, the four arrays \<open>split_data\<close> returns are read
  off the same index sets: \<open>x_true\<close> and \<open>y_true\<close> are the features and the targets at
  the indices whose feature is greater than the threshold, in increasing index order, and
  \<open>x_false\<close> and \<open>y_false\<close> those at the indices whose feature is less than it.\<close>

theorem split_data_index_aligned:
  assumes "length x = length y"
  shows "split_data x y t =
           Inr (map ((!) x) (filter (\<lambda>i. x ! i > t) [0..<length x]),
                map ((!) y) (filter (\<lambda>i. x ! i > t) [0..<length x]),
                map ((!) x) (filter (\<lambda>i. x ! i < t) [0..<length x]),
                map ((!) y) (filter (\<lambda>i. x ! i < t) [0..<length x]))"
  using assms by (simp add: split_data_def bool_index_filter filter_by_index)

theorem split_data_index_aligned_witness:
  "length [7, 30, 27, 80, 43 :: rat] = length [53, 28, 83, 25, 75 :: rat] \<and>
   split_data [7, 30, 27, 80, 43 :: rat] [53, 28, 83, 25, 75] 29
     = Inr ([30, 80, 43], [28, 25, 75], [7, 27], [53, 83])"
proof -
  have l: "length [7, 30, 27, 80, 43 :: rat] = length [53, 28, 83, 25, 75 :: rat]" by simp
  from split_data_index_aligned [OF l, of 29] show ?thesis by (simp add: upt_rec)
qed

text \<open>C8, as the code has it. \<open>split_data\<close> has no test of its own on the two lengths.
  With a feature array that is not empty and a target array of another length, the second
  indexing \<open>y[mask]\<close> raises NumPy's \<open>IndexError\<close>, and no partition is returned. With an
  empty feature array both masks are empty, every indexing selects nothing, and four empty
  arrays are returned whatever the target array is.\<close>

theorem split_data_length_mismatch:
  "(x \<noteq> [] \<and> length x \<noteq> length y \<longrightarrow> split_data x y t = Inl IndexError) \<and>
   (x = [] \<longrightarrow> split_data x y t = Inr ([], [], [], []))"
  by (simp add: split_data_def bool_index_filter) (simp add: bool_index_def)

theorem split_data_length_mismatch_witness:
  "[1, 2, 3 :: rat] \<noteq> [] \<and> length [1, 2, 3 :: rat] \<noteq> length [10, 20 :: rat] \<and>
   split_data [1, 2, 3 :: rat] [10, 20] 2 = Inl IndexError \<and>
   split_data ([] :: rat list) [10] 2 = Inr ([], [], [], [])"
proof -
  have a: "[1, 2, 3 :: rat] \<noteq> [] \<and> length [1, 2, 3 :: rat] \<noteq> length [10, 20 :: rat]" by simp
  from split_data_length_mismatch [of "[1, 2, 3 :: rat]" "[10, 20]" 2]
       split_data_length_mismatch [of "[] :: rat list" "[10]" 2] a
  show ?thesis by blast
qed

text \<open>The claim of a failure on every pair of arrays of differing lengths does not hold
  on an empty feature array with two targets: the call returns.\<close>

theorem split_data_length_mismatch_counterexample:
  "length ([] :: rat list) \<noteq> length [1, 2 :: rat] \<and>
   split_data ([] :: rat list) [1, 2] 0 = Inr ([], [], [], [])"
  by (simp add: split_data_def bool_index_def)

section \<open>The error scorer and the best split\<close>

text \<open>C9. For a target array \<open>y\<close> that is not empty, \<open>MAE\<close> returns
  \<open>mean(|y_i - mean(y)|)\<close> as \<open>old_mae\<close> whatever the two partitions are; and on at least
  two rows \<open>get_best_split\<close> returns a mapping over the thresholds of \<open>splits\<close> in which
  every threshold carries that same \<open>old_mae\<close>.\<close>

theorem old_mae_invariant:
  "(y \<noteq> [] \<longrightarrow> (\<exists>new_mae. MAE y y_true y_false = Inr (Fin (mad y), new_mae))) \<and>
   (2 \<le> length data \<longrightarrow>
      (\<exists>results best. get_best_split data = Inr (results, best) \<and>
         fst ` set results = set (splits (map fst data)) \<and>
         (\<forall>e\<in>set results. fst (snd e) = Fin (mad (map snd data)))))"
proof (intro conjI impI)
  assume "y \<noteq> []"
  then show "\<exists>new_mae. MAE y y_true y_false = Inr (Fin (mad y), new_mae)"
    by (simp add: MAE_eq)
next
  assume "2 \<le> length data"
  then obtain e es where
    r: "get_best_split data = Inr (e # es, fst (min_from e es))" and
    v: "\<forall>e'\<in>set (e # es).
          snd e' = (Fin (mad (map snd data)), new_mae_at (map fst data) (map snd data) (fst e'))" and
    k: "fst ` set (e # es) = set (splits (map fst data))" and
    "fst e = hd (splits (map fst data))" and
    "sorted_wrt (<) (map fst (e # es))"
    by (rule get_best_split_shape)
  from v have "\<forall>e'\<in>set (e # es). fst (snd e') = Fin (mad (map snd data))" by simp
  with r k show "\<exists>results best. get_best_split data = Inr (results, best) \<and>
         fst ` set results = set (splits (map fst data)) \<and>
         (\<forall>e\<in>set results. fst (snd e) = Fin (mad (map snd data)))"
    by blast
qed

theorem old_mae_invariant_witness:
  "[53, 28, 83, 25, 75 :: rat] \<noteq> [] \<and>
   2 \<le> length ([(7, 53), (30, 28), (27, 83), (80, 25), (43, 75)] :: (rat \<times> rat) list) \<and>
   (\<exists>new_mae. MAE [53, 28, 83, 25, 75 :: rat] [25] [53, 28, 83, 75]
                 = Inr (Fin (mad [53, 28, 83, 25, 75 :: rat]), new_mae)) \<and>
   (\<exists>results best.
      get_best_split ([(7, 53), (30, 28), (27, 83), (80, 25), (43, 75)] :: (rat \<times> rat) list)
        = Inr (results, best) \<and>
      fst ` set results
        = set (splits (map fst ([(7, 53), (30, 28), (27, 83), (80, 25), (43, 75)] :: (rat \<times> rat) list))) \<and>
      (\<forall>e\<in>set results.
         fst (snd e)
           = Fin (mad (map snd ([(7, 53), (30, 28), (27, 83), (80, 25), (43, 75)] :: (rat \<times> rat) list)))))"
proof -
  have a: "[53, 28, 83, 25, 75 :: rat] \<noteq> []" by simp
  have b: "2 \<le> length ([(7, 53), (30, 28), (27, 83), (80, 25), (43, 75)] :: (rat \<times> rat) list)"
    by simp
  from old_mae_invariant [of "[53, 28, 83, 25, 75 :: rat]" "[25]" "[53, 28, 83, 75]"
         "[(7, 53), (30, 28), (27, 83), (80, 25), (43, 75)] :: (rat \<times> rat) list"] a b
  show ?thesis by blast
qed

text \<open>C5, as the code has it. For a target array \<open>y\<close> that is not empty and a pair of
  partitions of which at least one is empty, \<open>MAE\<close> raises nothing and returns \<open>nan\<close> as
  \<open>new_mae\<close>. On at least two rows \<open>get_best_split\<close> returns, and a threshold whose
  scoring involved an empty partition is not the best threshold returned, unless it is the
  first candidate threshold.\<close>

theorem empty_partition_score:
  "(y \<noteq> [] \<and> (y_true = [] \<or> y_false = []) \<longrightarrow>
      (\<exists>old_mae. MAE y y_true y_false = Inr (old_mae, NaN))) \<and>
   (2 \<le> length data \<longrightarrow>
      (\<exists>results best. get_best_split data = Inr (results, best) \<and>
         (best \<noteq> hd (splits (map fst data)) \<longrightarrow>
            (\<exists>xt yt xf yf.
               split_data (map fst data) (map snd data) best = Inr (xt, yt, xf, yf) \<and>
               yt \<noteq> [] \<and> yf \<noteq> []))))"
proof (intro conjI impI)
  assume "y \<noteq> [] \<and> (y_true = [] \<or> y_false = [])"
  then show "\<exists>old_mae. MAE y y_true y_false = Inr (old_mae, NaN)"
    by (auto simp: MAE_eq)
next
  let ?x = "map fst data" and ?y = "map snd data"
  assume "2 \<le> length data"
  then obtain e es where
    r: "get_best_split data = Inr (e # es, fst (min_from e es))" and
    h: "fst e = hd (splits ?x)" and
    v: "\<forall>e'\<in>set (e # es). snd e' = (Fin (mad ?y), new_mae_at ?x ?y (fst e'))" and
    "fst ` set (e # es) = set (splits ?x)" and
    "sorted_wrt (<) (map fst (e # es))"
    by (rule get_best_split_shape)
  let ?b = "min_from e es"
  have part: "\<exists>xt yt xf yf. split_data ?x ?y (fst ?b) = Inr (xt, yt, xf, yf) \<and> yt \<noteq> [] \<and> yf \<noteq> []"
    if "fst ?b \<noteq> hd (splits ?x)"
  proof -
    have olds: "\<forall>e'\<in>set (e # es). fst (snd e') = Fin (mad ?y)" using v by simp
    have "?b \<noteq> e" using that h by auto
    with min_from_first_or_defined [OF olds] have d: "snd (snd ?b) \<noteq> NaN" by simp
    have "snd ?b = (Fin (mad ?y), new_mae_at ?x ?y (fst ?b))"
      using v min_from_mem [of e es] by blast
    with d have "new_mae_at ?x ?y (fst ?b) \<noteq> NaN" by simp
    from new_mae_at_defined [OF this] show ?thesis
      by (simp add: split_data_eq)
  qed
  show "\<exists>results best. get_best_split data = Inr (results, best) \<and>
         (best \<noteq> hd (splits ?x) \<longrightarrow>
            (\<exists>xt yt xf yf. split_data ?x ?y best = Inr (xt, yt, xf, yf) \<and> yt \<noteq> [] \<and> yf \<noteq> []))"
    using r part by blast
qed

theorem empty_partition_score_witness:
  "[1, 2 :: rat] \<noteq> [] \<and> ([] :: rat list) = [] \<and>
   2 \<le> length ([(1, 1), (2, 2), (3, 10)] :: (rat \<times> rat) list) \<and>
   (5 / 2 :: rat) \<noteq> hd (splits (map fst ([(1, 1), (2, 2), (3, 10)] :: (rat \<times> rat) list))) \<and>
   (\<exists>old_mae. MAE [1, 2 :: rat] [] [1, 2] = Inr (old_mae, NaN)) \<and>
   (\<exists>xt yt xf yf.
      split_data (map fst ([(1, 1), (2, 2), (3, 10)] :: (rat \<times> rat) list))
                 (map snd ([(1, 1), (2, 2), (3, 10)] :: (rat \<times> rat) list)) (5 / 2)
        = Inr (xt, yt, xf, yf) \<and> yt \<noteq> [] \<and> yf \<noteq> [])"
proof -
  let ?d = "[(1, 1), (2, 2), (3, 10)] :: (rat \<times> rat) list"
  have a: "[1, 2 :: rat] \<noteq> [] \<and> (([] :: rat list) = [] \<or> [1, 2 :: rat] = [])" by simp
  have b: "2 \<le> length ?d" by simp
  have c: "(5 / 2 :: rat) \<noteq> hd (splits (map fst ?d))" by code_simp
  have ev: "get_best_split ?d
              = Inr ([(3 / 2, (Fin (34 / 9), Fin (8 / 3))), (5 / 2, (Fin (34 / 9), Fin (1 / 3)))],
                     5 / 2)"
    by code_simp
  note t = empty_partition_score [of "[1, 2 :: rat]" "[]" "[1, 2]" ?d]
  from t a have m: "\<exists>old_mae. MAE [1, 2 :: rat] [] [1, 2] = Inr (old_mae, NaN)" by blast
  from t b obtain results best where
    g: "get_best_split ?d = Inr (results, best)" and
    i: "best \<noteq> hd (splits (map fst ?d)) \<longrightarrow>
          (\<exists>xt yt xf yf. split_data (map fst ?d) (map snd ?d) best = Inr (xt, yt, xf, yf) \<and>
             yt \<noteq> [] \<and> yf \<noteq> [])"
    by blast
  from g ev have bst: "best = 5 / 2" by simp
  have p:
    "\<exists>xt yt xf yf. split_data (map fst ?d) (map snd ?d) (5 / 2) = Inr (xt, yt, xf, yf) \<and>
       yt \<noteq> [] \<and> yf \<noteq> []"
    by (rule mp [OF i [unfolded bst] c])
  from a have a1: "[1, 2 :: rat] \<noteq> []" and a2: "([] :: rat list) = []" by simp_all
  show ?thesis by (intro conjI a1 a2 b c m p)
qed

text \<open>The claim does not hold as stated. With an empty target array \<open>MAE\<close> raises
  \<open>ZeroDivisionError\<close>; and on the rows \<open>(2,4), (2,6), (9,1)\<close> the threshold \<open>2\<close>, whose
  partition below the threshold is empty, is returned as best although the threshold
  \<open>5.5\<close> has the score \<open>2/3\<close>.\<close>

theorem empty_partition_score_counterexample:
  "MAE [] [] ([] :: rat list) = Inl ZeroDivisionError \<and>
   get_best_split [(2, 4), (2, 6), (9, 1 :: rat)]
     = Inr ([(2, (Fin (16 / 9), NaN)), (11 / 2, (Fin (16 / 9), Fin (2 / 3)))], 2)"
  by code_simp




text \<open>C2, at an input where the code departs from it. On the rows
  \<open>(5,1), (5,2), (7,3)\<close> the candidate thresholds are \<open>5\<close> and \<open>6\<close>. The threshold \<open>5\<close>
  leaves no sample below it, so its \<open>new_mae\<close> is \<open>nan\<close>; the threshold \<open>6\<close> has
  \<open>new_mae = 1/3\<close>, the minimal one. \<open>min\<close> starts from the first key and no number is
  less than \<open>nan\<close>, so the threshold \<open>5\<close> is returned as best.\<close>

theorem nan_first_selected:
  "get_best_split [(5, 1), (5, 2), (7, 3 :: rat)]
     = Inr ([(5, (Fin (2 / 3), NaN)), (6, (Fin (2 / 3), Fin (1 / 3)))], 5)"
  by code_simp

end
